theory Spec2Isabelle
  imports Complex_Main
begin

section \<open>Push-down automaton for postfix arithmetic expressions (postfix.cpp)\<close>

subsection \<open>Markers, operators and character classes\<close>

definition EOI :: char where "EOI = CHR '';''"
definition ZERO :: char where "ZERO = CHR ''0''"
definition MINUS :: char where "MINUS = CHR ''-''"
definition PLUS :: char where "PLUS = CHR ''+''"
definition MULT :: char where "MULT = CHR ''*''"
definition DIV :: char where "DIV = CHR ''/''"
definition RADIX_POINT :: char where "RADIX_POINT = CHR ''.''"

text \<open>
  The program never installs a locale, so \<open>is.getloc()\<close> is the classic C locale:
  \<open>isspace\<close> holds of the space and of the control characters 9 to 13, \<open>isdigit\<close> of
  the ten decimal digits. The characters of the stream are modelled by \<open>char\<close>; a wide
  character outside it is, like \<open>@\<close>, none of the markers, no space and no digit.
\<close>

definition isspace :: "char \<Rightarrow> bool" where
  "isspace c = (let n = (of_char c :: nat) in n = 32 \<or> (9 \<le> n \<and> n \<le> 13))"

definition isdigit :: "char \<Rightarrow> bool" where
  "isdigit c = (let n = (of_char c :: nat) in 48 \<le> n \<and> n \<le> 57)"

subsection \<open>Doubles, exceptions, output and the program state\<close>

text \<open>
  The values on the stack are C++ doubles. Their arithmetic, the comparison \<open>==\<close> and the
  library's text-to-double extraction \<open>ss >> n\<close> are not code of the program; the model
  takes them as a parameter. \<open>d_extract t\<close> is \<open>None\<close> when the extraction leaves the
  string stream neither good nor at its end (the case in which the program throws
  \<open>runtime_error\<close>), and \<open>Some n\<close> with the value stored in \<open>n\<close> otherwise.
\<close>

record 'v double_ops =
  d_zero :: 'v
  d_add :: "'v \<Rightarrow> 'v \<Rightarrow> 'v"
  d_sub :: "'v \<Rightarrow> 'v \<Rightarrow> 'v"
  d_mul :: "'v \<Rightarrow> 'v \<Rightarrow> 'v"
  d_div :: "'v \<Rightarrow> 'v \<Rightarrow> 'v"
  d_eq :: "'v \<Rightarrow> 'v \<Rightarrow> bool"
  d_extract :: "string \<Rightarrow> 'v option"

text \<open>
  What ends the \<open>try\<close> block early. The first four are the exceptions the program throws.
  \<open>Back_of_empty_list\<close> is no exception: it marks the call \<open>mem.back()\<close> on an empty
  \<open>std::list\<close>, whose behaviour C++ leaves undefined; the model stops there.
\<close>

datatype 'v exn =
    InvalidExpression string
  | InvalidInput string
  | DivByZero 'v
  | runtime_error string
  | Back_of_empty_list

text \<open>What is sent to an output stream with \<open><<\<close>: a string, a double, or \<open>endl\<close>.\<close>

datatype 'v out = Str string | Num 'v | Endl

text \<open>
  The state: the characters still to be read from \<open>wcin\<close> and its eof bit, the two
  global flags, the memory stack (its top is the last element, as \<open>push_back\<close>,
  \<open>back\<close> and \<open>pop_back\<close> use it), and what has been written to \<open>wcout\<close> and \<open>wcerr\<close>.
  Reading from a sequence of characters can only fail at its end, where the stream sets
  the eof bit together with the fail bit, so the test \<open>!is.good() && !is.eof()\<close> of
  \<open>next_tok\<close> never succeeds and has no branch in the model.
\<close>

record 'v pda =
  wcin :: string
  wcin_eof :: bool
  EndOfInput :: bool
  IsOperator :: bool
  mem :: "'v list"
  wcout :: "'v out list"
  wcerr :: "'v out list"

definition start :: "string \<Rightarrow> 'v pda" where
  "start input = \<lparr>wcin = input, wcin_eof = False, EndOfInput = False, IsOperator = False,
     mem = [], wcout = [], wcerr = []\<rparr>"

subsection \<open>The tokenizer \<open>next_tok\<close>\<close>

text \<open>The local variables of \<open>next_tok\<close> that live across iterations of its loop.\<close>

record tok_locals =
  str :: string
  got_radixpt :: bool
  is_valid_num :: bool
  got_eoi :: bool

definition tok_init :: tok_locals where
  "tok_init = \<lparr>str = [], got_radixpt = False, is_valid_num = False, got_eoi = False\<rparr>"

text \<open>
  The loop \<open>while (should_cont && is.get(c))\<close>, entered on a good stream. It returns the
  locals, the characters left in the stream and the stream's eof bit. \<open>is.get(c)\<close> on the
  empty stream fails and sets the eof bit; \<open>is.putback(c)\<close> puts \<open>c\<close> back in front.
  A branch that sets \<open>should_cont = false\<close> returns, every other one goes round again.
\<close>

fun tok_loop :: "tok_locals \<Rightarrow> string \<Rightarrow> tok_locals \<times> string \<times> bool" where
  "tok_loop L [] = (L, [], True)"
| "tok_loop L (c # cs) =
    (if c = EOI then (L\<lparr>got_eoi := True\<rparr>, cs, False)
     else if c = MINUS \<or> c = PLUS then
       (if str L \<noteq> [] then (L, c # cs, False)
        else tok_loop (L\<lparr>str := str L @ [c]\<rparr>) cs)
     else if c = RADIX_POINT then
       (if got_radixpt L then (L, c # cs, False)
        else tok_loop (L\<lparr>str := (if str L = [] then str L @ [ZERO] else str L) @ [c],
                          got_radixpt := True, is_valid_num := False\<rparr>) cs)
     else if c = MULT \<or> c = DIV then
       (if str L \<noteq> [] then (L, c # cs, False)
        else (L\<lparr>str := str L @ [c]\<rparr>, cs, False))
     else if isspace c then
       (if str L = [] then tok_loop L cs
        else (L, c # cs, False))
     else if \<not> isdigit c then
       (L\<lparr>str := str L @ [c], is_valid_num := False\<rparr>, c # cs, False)
     else tok_loop (L\<lparr>str := str L @ [c], is_valid_num := True\<rparr>) cs)"

definition is_operator_text :: "string \<Rightarrow> bool" where
  "is_operator_text t = (t = [MINUS] \<or> t = [PLUS] \<or> t = [MULT] \<or> t = [DIV])"

text \<open>
  What \<open>next_tok\<close> does after its loop: it sets \<open>IsOperator\<close>, sets \<open>EndOfInput\<close> at the
  end of the stream or after the terminator, and throws \<open>InvalidExpression\<close> or returns
  the token. An exception is returned with the state in which it was thrown.
\<close>

definition classify :: "tok_locals \<times> string \<times> bool \<Rightarrow> 'v pda \<Rightarrow> ('v exn \<times> 'v pda) + (string \<times> 'v pda)" where
  "classify r s =
    (case r of (L, rest, eof) \<Rightarrow>
      let s1 = s\<lparr>wcin := rest, wcin_eof := eof, IsOperator := is_operator_text (str L)\<rparr>;
          s2 = (if eof \<or> got_eoi L then s1\<lparr>EndOfInput := True\<rparr> else s1)
      in if \<not> EndOfInput s2 \<and> \<not> is_valid_num L \<and> \<not> IsOperator s2
         then Inl (InvalidExpression (str L), s2)
         else Inr (str L, s2))"

text \<open>On a stream that is no longer good, \<open>is.get(c)\<close> fails at once and the loop is not entered.\<close>

definition next_tok :: "'v pda \<Rightarrow> ('v exn \<times> 'v pda) + (string \<times> 'v pda)" where
  "next_tok s =
    classify (if wcin_eof s then (tok_init, wcin s, True) else tok_loop tok_init (wcin s)) s"

subsection \<open>The evaluator \<open>main\<close>\<close>

fun print_stack :: "'v list \<Rightarrow> 'v out list" where
  "print_stack [] = []"
| "print_stack (x # xs) = Num x # Str '' '' # print_stack xs"

definition put :: "'v out list \<Rightarrow> 'v pda \<Rightarrow> 'v pda" where
  "put items s = s\<lparr>wcout := wcout s @ items\<rparr>"

text \<open>The branch of the loop body for a token that is not an operator (lines 182 to 190).\<close>

definition push_number :: "'v double_ops \<Rightarrow> bool \<Rightarrow> string \<Rightarrow> 'v pda \<Rightarrow> ('v exn \<times> 'v pda) + 'v pda" where
  "push_number A flag_verbose tok s =
    (case d_extract A tok of
       None \<Rightarrow> Inl (runtime_error ''Could not convert to number'', s)
     | Some n \<Rightarrow>
         let s1 = (if flag_verbose then put [Str ''Number '', Num n, Endl] s else s)
         in Inr (s1\<lparr>mem := mem s1 @ [n]\<rparr>))"

text \<open>
  The result of an operator (lines 210 to 215): \<open>res\<close> starts as \<open>0.0\<close> and each of the
  four \<open>if\<close> statements in turn may assign it.
\<close>

definition operate :: "'v double_ops \<Rightarrow> string \<Rightarrow> 'v \<Rightarrow> 'v \<Rightarrow> 'v" where
  "operate A tok n1 n2 =
    (let res0 = d_zero A;
         res1 = (if tok = [PLUS] then d_add A n1 n2 else res0);
         res2 = (if tok = [MINUS] then d_sub A n1 n2 else res1);
         res3 = (if tok = [MULT] then d_mul A n1 n2 else res2)
     in if tok = [DIV] then d_div A n1 n2 else res3)"

text \<open>The branch for an operator (lines 193 to 228).\<close>

definition apply_operator :: "'v double_ops \<Rightarrow> bool \<Rightarrow> string \<Rightarrow> 'v pda \<Rightarrow> ('v exn \<times> 'v pda) + 'v pda" where
  "apply_operator A flag_verbose tok s =
    (let s1 = (if flag_verbose
               then put ([Str ''Operator '', Str tok, Endl, Str ''Stack: ''] @ print_stack (mem s)) s
               else s)
     in if mem s1 = [] then Inl (InvalidInput [], s1)
        else
          let n2 = last (mem s1); s2 = s1\<lparr>mem := butlast (mem s1)\<rparr>
          in if mem s2 = [] then Inl (InvalidInput [], s2)
             else
               let n1 = last (mem s2); s3 = s2\<lparr>mem := butlast (mem s2)\<rparr>
               in if tok = [DIV] \<and> d_eq A n2 (d_zero A)
                  then Inl (DivByZero n1, if flag_verbose then put [Endl] s3 else s3)
                  else
                    let res = operate A tok n1 n2;
                        s4 = (if flag_verbose
                              then put [Str [CHR 0x0A], Num n1, Str '' '', Str tok, Str '' '',
                                        Num n2, Str '' = '', Num res, Endl] s3
                              else s3);
                        s5 = s4\<lparr>mem := mem s4 @ [res]\<rparr>
                    in Inr (if flag_verbose
                            then put ([Str ''Stack: ''] @ print_stack (mem s5) @ [Str [CHR 0x0A], Endl]) s5
                            else s5))"

text \<open>The body of the \<open>while\<close> loop after the call of \<open>next_tok\<close> (lines 180 to 230).\<close>

definition process_tok :: "'v double_ops \<Rightarrow> bool \<Rightarrow> string \<Rightarrow> 'v pda \<Rightarrow> ('v exn \<times> 'v pda) + 'v pda" where
  "process_tok A flag_verbose tok s =
    (if \<not> EndOfInput s \<or> tok \<noteq> [] then
       (if \<not> IsOperator s then push_number A flag_verbose tok s
        else apply_operator A flag_verbose tok s)
     else Inr s)"

text \<open>
  The loop \<open>while (!EndOfInput)\<close> of \<open>main\<close>. Every call of \<open>next_tok\<close> that returns
  without setting \<open>EndOfInput\<close> has taken at least one character from the stream, which
  is why the loop ends; the three lemmas below say so.
\<close>

lemma tok_loop_length:
  "tok_loop L cs = (L', cs', eof) \<Longrightarrow> length cs' \<le> length cs"
proof (induction cs arbitrary: L)
  case Nil
  then show ?case by simp
next
  case (Cons c cs)
  then show ?case
    by (fastforce split: if_splits)
qed

lemma tok_loop_progress:
  "tok_loop L cs = (L', cs', eof) \<Longrightarrow> str L = [] \<Longrightarrow> \<not> got_radixpt L \<Longrightarrow> \<not> eof \<Longrightarrow>
   \<not> got_eoi L' \<Longrightarrow> is_valid_num L' \<or> is_operator_text (str L') \<Longrightarrow> length cs' < length cs"
proof (induction cs arbitrary: L)
  case Nil
  then show ?case by simp
next
  case (Cons c cs)
  then show ?case
    by (auto split: if_splits dest!: tok_loop_length simp: is_operator_text_def)
qed

lemma process_tok_stream:
  "process_tok A v tok s = Inr s' \<Longrightarrow>
     wcin s' = wcin s \<and> wcin_eof s' = wcin_eof s \<and> EndOfInput s' = EndOfInput s"
  by (auto simp: process_tok_def push_number_def apply_operator_def put_def Let_def
           split: if_splits option.splits)

lemma next_tok_progress:
  "next_tok s = Inr (tok, s1) \<Longrightarrow> \<not> EndOfInput s1 \<Longrightarrow> length (wcin s1) < length (wcin s)"
  by (auto simp: next_tok_def classify_def Let_def tok_init_def split: if_splits prod.splits
           dest!: tok_loop_progress)

function main_loop :: "'v double_ops \<Rightarrow> bool \<Rightarrow> 'v pda \<Rightarrow> ('v exn \<times> 'v pda) + 'v pda" where
  "main_loop A flag_verbose s =
    (if EndOfInput s then Inr s
     else case next_tok s of
            Inl e \<Rightarrow> Inl e
          | Inr (tok, s1) \<Rightarrow>
              (case process_tok A flag_verbose tok s1 of
                 Inl e \<Rightarrow> Inl e
               | Inr s2 \<Rightarrow> main_loop A flag_verbose s2))"
  by pat_completeness auto
termination
proof (relation "measure (\<lambda>(A, v, s). if EndOfInput s then 0 else Suc (length (wcin s)))")
  show "wf (measure (\<lambda>(A, v, s). if EndOfInput s then 0 else Suc (length (wcin s))))" by simp
next
  fix A :: "'v double_ops" and flag_verbose s x2 tok s1 s2
  assume "\<not> EndOfInput s" "next_tok s = Inr x2" "(tok, s1) = x2"
    "process_tok A flag_verbose tok s1 = Inr s2"
  then show "((A, flag_verbose, s2), A, flag_verbose, s)
       \<in> measure (\<lambda>(A, v, s). if EndOfInput s then 0 else Suc (length (wcin s)))"
    using next_tok_progress[of s tok s1] process_tok_stream[of A flag_verbose tok s1 s2]
    by auto
qed

declare main_loop.simps [simp del]

text \<open>
  The end of the \<open>try\<close> block (lines 236 to 246): the top of the stack is printed as the
  result and popped, and a stack that is not empty then is reported on \<open>wcerr\<close>. With
  tracing the heading \<open>Stack:\<close> goes to \<open>wcerr\<close> as well, but \<open>print_stack\<close> writes the
  values to \<open>wcout\<close>, here as everywhere. The program calls \<open>mem.back()\<close> without
  looking whether the stack is empty.
\<close>

definition print_result :: "bool \<Rightarrow> 'v pda \<Rightarrow> ('v exn \<times> 'v pda) + ('v \<times> 'v pda)" where
  "print_result flag_verbose s =
    (let s1 = (if flag_verbose then put [Str ''Result: ''] s else s)
     in if mem s1 = [] then Inl (Back_of_empty_list, s1)
        else
          let r = last (mem s1);
              s2 = put [Num r, Endl] s1;
              s3 = s2\<lparr>mem := butlast (mem s2)\<rparr>
          in Inr (r,
               if mem s3 \<noteq> []
               then
                 let s4 = s3\<lparr>wcerr := wcerr s3
                              @ [Str ''The input was improper; the stack is not empty.'']\<rparr>;
                     s5 = (if flag_verbose
                           then put (print_stack (mem s4))
                                  (s4\<lparr>wcerr := wcerr s4 @ [Str (CHR 0x0A # ''Stack: '')]\<rparr>)
                           else s4)
                 in s5\<lparr>wcerr := wcerr s5 @ [Endl]\<rparr>
               else s3))"

text \<open>
  The whole \<open>try\<close> block, run on the characters \<open>input\<close>: the exception thrown with the
  state at the throw, or the number printed as the result with the final state.
\<close>

definition evaluate :: "'v double_ops \<Rightarrow> bool \<Rightarrow> string \<Rightarrow> ('v exn \<times> 'v pda) + ('v \<times> 'v pda)" where
  "evaluate A flag_verbose input =
    (case main_loop A flag_verbose (start input) of
       Inl e \<Rightarrow> Inl e
     | Inr s \<Rightarrow> print_result flag_verbose s)"

subsection \<open>Exact arithmetic for the examples\<close>

text \<open>
  The examples below run the program on decimal texts whose values, and the values
  computed from them, are small integers and small multiples of a quarter; IEEE doubles
  represent them, and add, subtract, multiply, divide and compare them there without
  rounding. For these runs the double
  operations are the ones of the rationals, and the extraction reads an optional sign,
  digits, and an optional radix point with digits. As the library does, it stops at the
  first character that cannot continue the number: with no digit read it fails, which
  the program notices only when the text was not read to its end.
\<close>

definition digits_value :: "string \<Rightarrow> nat" where
  "digits_value ds = foldl (\<lambda>n c. 10 * n + (of_char c - 48)) 0 ds"

definition extract_decimal :: "string \<Rightarrow> rat option" where
  "extract_decimal t =
    (let neg = (t \<noteq> [] \<and> hd t = MINUS);
         u = (if t \<noteq> [] \<and> (hd t = MINUS \<or> hd t = PLUS) then tl t else t);
         w = takeWhile isdigit u;
         r = dropWhile isdigit u;
         has_point = (r \<noteq> [] \<and> hd r = RADIX_POINT);
         f = (if has_point then takeWhile isdigit (tl r) else []);
         r' = (if has_point then dropWhile isdigit (tl r) else r);
         magnitude = of_nat (digits_value (w @ f)) / 10 ^ length f
     in if w = [] \<and> f = [] then (if r' = [] then Some 0 else None)
        else Some (if neg then - magnitude else magnitude))"

definition exact_ops :: "rat double_ops" where
  "exact_ops = \<lparr>d_zero = 0, d_add = (+), d_sub = (-), d_mul = (*), d_div = (/),
     d_eq = (=), d_extract = extract_decimal\<rparr>"

subsection \<open>Stop conditions, unrecognized characters, states without output\<close>

text \<open>
  The characters after which the loop of \<open>next_tok\<close> stops without adding to a lexeme
  it has begun: the end of the stream, the terminator, white space, a sign, \<open>*\<close> or \<open>/\<close>.
\<close>

definition delimits :: "string \<Rightarrow> bool" where
  "delimits tail =
    (case tail of
       [] \<Rightarrow> True
     | d # _ \<Rightarrow> d = EOI \<or> isspace d \<or> d = MINUS \<or> d = PLUS \<or> d = MULT \<or> d = DIV)"

text \<open>A character that no branch of the \<open>switch\<close> accepts.\<close>

definition unrecognized :: "char \<Rightarrow> bool" where
  "unrecognized c =
    (c \<noteq> EOI \<and> c \<noteq> MINUS \<and> c \<noteq> PLUS \<and> c \<noteq> RADIX_POINT \<and> c \<noteq> MULT \<and> c \<noteq> DIV
     \<and> \<not> isspace c \<and> \<not> isdigit c)"

text \<open>The state without what has been printed.\<close>

definition quiet :: "'v pda \<Rightarrow> 'v pda" where
  "quiet s = s\<lparr>wcout := [], wcerr := []\<rparr>"

subsection \<open>Well-formed postfix expressions and their values\<close>

text \<open>
  The reference the evaluator is compared with, written from the specification and not
  from the program: an expression is a number or an operator applied to two
  expressions; its postfix text lists the left operand, the right operand and the
  operator, one space between; its value applies \<open>+\<close>, \<open>-\<close>, \<open>*\<close> or \<open>/\<close> to the values of
  the operands, the left one first, and has none where a divisor is zero. A number is
  written as an optional sign, digits, and optionally a radix point and digits.
\<close>

datatype expr = Operand string | Binary expr string expr

fun postfix_text :: "expr \<Rightarrow> string" where
  "postfix_text (Operand t) = t"
| "postfix_text (Binary l opr r) = postfix_text l @ '' '' @ postfix_text r @ '' '' @ opr"

definition number_text :: "string \<Rightarrow> bool" where
  "number_text t =
    (let u = (if t \<noteq> [] \<and> (hd t = MINUS \<or> hd t = PLUS) then tl t else t);
         w = takeWhile isdigit u;
         r = dropWhile isdigit u
     in w \<noteq> [] \<and> (r = [] \<or> (hd r = RADIX_POINT \<and> tl r \<noteq> [] \<and> list_all isdigit (tl r))))"

fun well_formed :: "expr \<Rightarrow> bool" where
  "well_formed (Operand t) = number_text t"
| "well_formed (Binary l opr r) = (is_operator_text opr \<and> well_formed l \<and> well_formed r)"

fun expr_value :: "'v double_ops \<Rightarrow> expr \<Rightarrow> 'v option" where
  "expr_value A (Operand t) = d_extract A t"
| "expr_value A (Binary l opr r) =
    (case expr_value A l of
       None \<Rightarrow> None
     | Some n1 \<Rightarrow>
        (case expr_value A r of
           None \<Rightarrow> None
         | Some n2 \<Rightarrow>
            if opr = [DIV] \<and> d_eq A n2 (d_zero A) then None
            else Some (if opr = [PLUS] then d_add A n1 n2
                       else if opr = [MINUS] then d_sub A n1 n2
                       else if opr = [MULT] then d_mul A n1 n2
                       else d_div A n1 n2)))"

section \<open>Properties\<close>

subsection \<open>One operator step\<close>

lemma process_tok_operator:
  "IsOperator s \<Longrightarrow> tok \<noteq> [] \<Longrightarrow> process_tok A v tok s = apply_operator A v tok s"
  by (simp add: process_tok_def)

lemma apply_operator_empty:
  "mem s = [] \<Longrightarrow> \<exists>s'. apply_operator A v tok s = Inl (InvalidInput [], s') \<and> mem s' = []"
  by (simp add: apply_operator_def put_def)

lemma apply_operator_single:
  "mem s = [x] \<Longrightarrow> \<exists>s'. apply_operator A v tok s = Inl (InvalidInput [], s') \<and> mem s' = []"
  by (simp add: apply_operator_def put_def)

lemma apply_operator_div_zero:
  "mem s = st @ [n1, n2] \<Longrightarrow> d_eq A n2 (d_zero A) \<Longrightarrow>
   \<exists>s'. apply_operator A v [DIV] s = Inl (DivByZero n1, s') \<and> mem s' = st"
  by (simp add: apply_operator_def put_def Let_def butlast_append)

lemma apply_operator_push:
  "mem s = st @ [n1, n2] \<Longrightarrow> \<not> (tok = [DIV] \<and> d_eq A n2 (d_zero A)) \<Longrightarrow>
   \<exists>s'. apply_operator A v tok s = Inr s' \<and> mem s' = st @ [operate A tok n1 n2]
     \<and> wcin s' = wcin s \<and> wcin_eof s' = wcin_eof s \<and> EndOfInput s' = EndOfInput s
     \<and> IsOperator s' = IsOperator s \<and> wcerr s' = wcerr s"
  by (auto simp add: apply_operator_def put_def Let_def butlast_append)

lemma operate_cases:
  "operate A [PLUS] n1 n2 = d_add A n1 n2"
  "operate A [MINUS] n1 n2 = d_sub A n1 n2"
  "operate A [MULT] n1 n2 = d_mul A n1 n2"
  "operate A [DIV] n1 n2 = d_div A n1 n2"
  by (simp_all add: operate_def PLUS_def MINUS_def MULT_def DIV_def)

text \<open>
  C2. A division whose right operand \<open>n2\<close> (the top of the stack, popped first) compares
  equal to \<open>0.0\<close> throws \<open>DivByZero\<close> carrying the left operand \<open>n1\<close> (popped second), and
  the run on \<open>1 0 /;\<close> ends with \<open>DivByZero\<close> carrying 1, with or without tracing.
\<close>

theorem division_by_zero_carries_dividend:
  "(IsOperator s \<and> mem s = st @ [n1, n2] \<and> d_eq A n2 (d_zero A) \<longrightarrow>
      (\<exists>s'. process_tok A v [DIV] s = Inl (DivByZero n1, s')))
   \<and> map_sum fst fst (evaluate exact_ops False ''1 0 /;'') = Inl (DivByZero 1)
   \<and> map_sum fst fst (evaluate exact_ops True ''1 0 /;'') = Inl (DivByZero 1)"
proof (intro conjI impI)
  assume h: "IsOperator s \<and> mem s = st @ [n1, n2] \<and> d_eq A n2 (d_zero A)"
  then have "process_tok A v [DIV] s = apply_operator A v [DIV] s"
    by (simp add: process_tok_operator)
  with h apply_operator_div_zero[of s st n1 n2 A v]
  show "\<exists>s'. process_tok A v [DIV] s = Inl (DivByZero n1, s')" by auto
next
  show "map_sum fst fst (evaluate exact_ops False ''1 0 /;'') = Inl (DivByZero 1)"
    by code_simp
next
  show "map_sum fst fst (evaluate exact_ops True ''1 0 /;'') = Inl (DivByZero 1)"
    by code_simp
qed

theorem division_by_zero_carries_dividend_witness:
  "\<exists>s'. process_tok exact_ops False [DIV]
          ((start [])\<lparr>IsOperator := True, mem := [4, 6, 0]\<rparr>) = Inl (DivByZero (6::rat), s')"
  using division_by_zero_carries_dividend
          [of "(start [])\<lparr>IsOperator := True, mem := [4, 6, 0]\<rparr>" "[4]" 6 0 exact_ops False]
  by (simp add: exact_ops_def)

text \<open>
  C3. An operator token pops the top of the stack as \<open>n2\<close> and then the value below it as
  \<open>n1\<close>: on an empty stack, and on a stack of one value, it throws \<open>InvalidInput\<close>; on a
  stack that ends with \<open>n1, n2\<close> it replaces the two by the result for \<open>n1\<close> and \<open>n2\<close> in
  this order (unless it is a division by zero), so that subtraction gives \<open>n1 - n2\<close>.
  The run on \<open>+;\<close> ends with \<open>InvalidInput\<close>.
\<close>

theorem operator_pops_n2_then_n1:
  "(IsOperator s \<and> tok \<noteq> [] \<and> mem s = [] \<longrightarrow>
      (\<exists>s'. process_tok A v tok s = Inl (InvalidInput [], s')))
   \<and> (IsOperator s \<and> tok \<noteq> [] \<and> mem s = [x] \<longrightarrow>
      (\<exists>s'. process_tok A v tok s = Inl (InvalidInput [], s')))
   \<and> (IsOperator s \<and> tok \<noteq> [] \<and> mem s = st @ [n1, n2]
        \<and> \<not> (tok = [DIV] \<and> d_eq A n2 (d_zero A)) \<longrightarrow>
      (\<exists>s'. process_tok A v tok s = Inr s' \<and> mem s' = st @ [operate A tok n1 n2]))
   \<and> operate A [MINUS] n1 n2 = d_sub A n1 n2
   \<and> (\<exists>s'. evaluate A v ''+;'' = Inl (InvalidInput [], s'))"
proof (intro conjI impI)
  assume "IsOperator s \<and> tok \<noteq> [] \<and> mem s = []"
  then show "\<exists>s'. process_tok A v tok s = Inl (InvalidInput [], s')"
    using apply_operator_empty[of s A v tok] by (auto simp: process_tok_operator)
next
  assume "IsOperator s \<and> tok \<noteq> [] \<and> mem s = [x]"
  then show "\<exists>s'. process_tok A v tok s = Inl (InvalidInput [], s')"
    using apply_operator_single[of s x A v tok] by (auto simp: process_tok_operator)
next
  assume h: "IsOperator s \<and> tok \<noteq> [] \<and> mem s = st @ [n1, n2]
        \<and> \<not> (tok = [DIV] \<and> d_eq A n2 (d_zero A))"
  then have "process_tok A v tok s = apply_operator A v tok s"
    by (simp add: process_tok_operator)
  with h apply_operator_push[of s st n1 n2 tok A v]
  show "\<exists>s'. process_tok A v tok s = Inr s' \<and> mem s' = st @ [operate A tok n1 n2]"
    by auto
next
  show "operate A [MINUS] n1 n2 = d_sub A n1 n2" by (rule operate_cases)
next
  show "\<exists>s'. evaluate A v ''+;'' = Inl (InvalidInput [], s')"
    by (simp add: evaluate_def main_loop.simps start_def next_tok_def classify_def tok_init_def
          process_tok_def apply_operator_def put_def is_operator_text_def EOI_def PLUS_def
          MINUS_def)
qed

theorem operator_pops_n2_then_n1_witness:
  "(\<exists>s'. process_tok exact_ops False ''-'' ((start [])\<lparr>IsOperator := True, mem := []\<rparr>)
           = Inl (InvalidInput [], s'))
   \<and> (\<exists>s'. process_tok exact_ops False ''-'' ((start [])\<lparr>IsOperator := True, mem := [8]\<rparr>)
           = Inl (InvalidInput [], s'))
   \<and> (\<exists>s'. process_tok exact_ops False ''-'' ((start [])\<lparr>IsOperator := True, mem := [1, 8, 3]\<rparr>)
           = Inr s' \<and> mem s' = [1, 5 :: rat])"
  using operator_pops_n2_then_n1
          [where s = "(start [])\<lparr>IsOperator := True, mem := []\<rparr>" and tok = "''-''"
             and A = exact_ops and v = False]
        operator_pops_n2_then_n1
          [where s = "(start [])\<lparr>IsOperator := True, mem := [8]\<rparr>" and tok = "''-''"
             and A = exact_ops and v = False and x = 8]
        operator_pops_n2_then_n1
          [where s = "(start [])\<lparr>IsOperator := True, mem := [1, 8, 3]\<rparr>" and tok = "''-''"
             and A = exact_ops and v = False and st = "[1]" and ?n1.0 = 8 and ?n2.0 = 3]
  by (simp add: exact_ops_def DIV_def operate_def PLUS_def MINUS_def MULT_def)

text \<open>
  C10. An operator that finds exactly one value on the stack has popped it when it
  throws \<open>InvalidInput\<close>: the stack is empty in the state at the throw, not as it was.
  So it is in the run on \<open>7 +;\<close>.
\<close>

theorem underflow_after_first_pop_leaves_stack_empty:
  "(IsOperator s \<and> tok \<noteq> [] \<and> mem s = [x] \<longrightarrow>
      (\<exists>s'. process_tok A v tok s = Inl (InvalidInput [], s') \<and> mem s' = [] \<and> mem s' \<noteq> mem s))
   \<and> map_sum (\<lambda>(e, s'). (e, mem s')) fst (evaluate exact_ops False ''7 +;'')
       = Inl (InvalidInput [], [])"
proof (intro conjI impI)
  assume h: "IsOperator s \<and> tok \<noteq> [] \<and> mem s = [x]"
  then have "process_tok A v tok s = apply_operator A v tok s"
    by (simp add: process_tok_operator)
  with h apply_operator_single[of s x A v tok]
  show "\<exists>s'. process_tok A v tok s = Inl (InvalidInput [], s') \<and> mem s' = [] \<and> mem s' \<noteq> mem s"
    by auto
next
  show "map_sum (\<lambda>(e, s'). (e, mem s')) fst (evaluate exact_ops False ''7 +;'')
       = Inl (InvalidInput [], [])"
    by code_simp
qed

theorem underflow_after_first_pop_leaves_stack_empty_witness:
  "\<exists>s'. process_tok exact_ops True ''*'' ((start [])\<lparr>IsOperator := True, mem := [7]\<rparr>)
           = Inl (InvalidInput [], s') \<and> mem s' = ([] :: rat list)"
  using underflow_after_first_pop_leaves_stack_empty
          [of "(start [])\<lparr>IsOperator := True, mem := [7]\<rparr>" "''*''" 7 exact_ops True]
  by auto


subsection \<open>The tokenizer, character by character\<close>

lemmas marker_defs = EOI_def ZERO_def MINUS_def PLUS_def MULT_def DIV_def RADIX_POINT_def

lemma isdigit_plain:
  "isdigit c \<Longrightarrow> c \<noteq> EOI \<and> c \<noteq> MINUS \<and> c \<noteq> PLUS \<and> c \<noteq> RADIX_POINT \<and> c \<noteq> MULT \<and> c \<noteq> DIV
     \<and> \<not> isspace c"
  by (auto simp: isdigit_def isspace_def Let_def marker_defs)

lemma isspace_plain:
  "isspace c \<Longrightarrow> c \<noteq> EOI \<and> c \<noteq> MINUS \<and> c \<noteq> PLUS \<and> c \<noteq> RADIX_POINT \<and> c \<noteq> MULT \<and> c \<noteq> DIV"
  by (auto simp: isspace_def Let_def marker_defs)

lemma tok_loop_skip_space:
  "list_all isspace ws \<Longrightarrow> str L = [] \<Longrightarrow> tok_loop L (ws @ tail) = tok_loop L tail"
  by (induction ws) (auto dest: isspace_plain)

lemma tok_loop_sign:
  "c = MINUS \<or> c = PLUS \<Longrightarrow> str L = [] \<Longrightarrow> tok_loop L (c # tail) = tok_loop (L\<lparr>str := [c]\<rparr>) tail"
  by (auto simp: marker_defs)

lemma tok_loop_digit:
  "isdigit c \<Longrightarrow> tok_loop L (c # tail) = tok_loop (L\<lparr>str := str L @ [c], is_valid_num := True\<rparr>) tail"
  by (auto dest: isdigit_plain)

lemma tok_loop_digits:
  "list_all isdigit ds \<Longrightarrow> ds \<noteq> [] \<Longrightarrow>
   tok_loop L (ds @ tail) = tok_loop (L\<lparr>str := str L @ ds, is_valid_num := True\<rparr>) tail"
proof (induction ds arbitrary: L)
  case Nil
  then show ?case by simp
next
  case (Cons d ds)
  show ?case
  proof (cases "ds = []")
    case True
    with Cons.prems show ?thesis by (simp add: tok_loop_digit del: tok_loop.simps)
  next
    case False
    with Cons.prems Cons.IH[of "L\<lparr>str := str L @ [d], is_valid_num := True\<rparr>"]
    show ?thesis by (simp add: tok_loop_digit del: tok_loop.simps)
  qed
qed

lemma tok_loop_point:
  "\<not> got_radixpt L \<Longrightarrow>
   tok_loop L (RADIX_POINT # tail) =
     tok_loop (L\<lparr>str := (if str L = [] then [ZERO] else str L) @ [RADIX_POINT],
                 got_radixpt := True, is_valid_num := False\<rparr>) tail"
  by (simp add: marker_defs)

lemma tok_loop_second_point:
  "got_radixpt L \<Longrightarrow> tok_loop L (RADIX_POINT # tail) = (L, RADIX_POINT # tail, False)"
  by (simp add: marker_defs)

lemma tok_loop_pushed_back_sign:
  "c = MINUS \<or> c = PLUS \<Longrightarrow> str L \<noteq> [] \<Longrightarrow> tok_loop L (c # tail) = (L, c # tail, False)"
  by (auto simp: marker_defs)

lemma tok_loop_space_ends:
  "isspace d \<Longrightarrow> str L \<noteq> [] \<Longrightarrow> tok_loop L (d # rest) = (L, d # rest, False)"
  by (auto dest: isspace_plain)

lemma tok_loop_unrecognized:
  "unrecognized c \<Longrightarrow>
   tok_loop L (c # tail) = (L\<lparr>str := str L @ [c], is_valid_num := False\<rparr>, c # tail, False)"
  by (simp add: unrecognized_def)

lemma tok_loop_delimited:
  "delimits tail \<Longrightarrow> str L \<noteq> [] \<Longrightarrow>
   \<exists>L' rest eof. tok_loop L tail = (L', rest, eof) \<and> str L' = str L
      \<and> is_valid_num L' = is_valid_num L"
proof (cases tail)
  case Nil
  then show ?thesis by auto
next
  case (Cons d rest)
  assume "delimits tail" "str L \<noteq> []"
  with Cons show ?thesis
    by (auto simp: delimits_def marker_defs dest: isspace_plain)
qed

lemma classify_returns:
  "is_valid_num L \<or> is_operator_text (str L) \<Longrightarrow>
   \<exists>s'. classify (L, rest, eof) s = Inr (str L, s') \<and> IsOperator s' = is_operator_text (str L)
      \<and> wcin s' = rest"
  by (auto simp: classify_def Let_def)

text \<open>
  C6. A sign is taken into the lexeme only when nothing has been accumulated: the loop
  then goes on with the sign as the whole text so far. With text accumulated the sign
  is put back (it is again the first character of the stream) and the loop ends with
  the lexeme unchanged. A sign alone, after any white space and with a stop condition
  right behind it, is returned as a token with \<open>IsOperator\<close> set and no exception;
  \<open>-;\<close> gives the operator \<open>-\<close>. The stop conditions are those of \<open>delimits\<close>; an
  unrecognized character is none, as the loop appends it to the sign before it stops.
\<close>

theorem sign_only_as_first_character:
  "((c = MINUS \<or> c = PLUS) \<and> str L = [] \<longrightarrow>
      tok_loop L (c # tail) = tok_loop (L\<lparr>str := [c]\<rparr>) tail)
   \<and> ((c = MINUS \<or> c = PLUS) \<and> str L \<noteq> [] \<longrightarrow>
      tok_loop L (c # tail) = (L, c # tail, False))
   \<and> ((c = MINUS \<or> c = PLUS) \<and> \<not> wcin_eof s \<and> list_all isspace ws
        \<and> wcin s = ws @ c # tail \<and> delimits tail \<longrightarrow>
      (\<exists>s'. next_tok s = Inr ([c], s') \<and> IsOperator s'))
   \<and> next_tok (start ''-;'') = Inr (''-'', (start [])\<lparr>EndOfInput := True, IsOperator := True\<rparr>)"
proof (intro conjI impI)
  assume "(c = MINUS \<or> c = PLUS) \<and> str L = []"
  then show "tok_loop L (c # tail) = tok_loop (L\<lparr>str := [c]\<rparr>) tail"
    by (simp add: tok_loop_sign del: tok_loop.simps)
next
  assume "(c = MINUS \<or> c = PLUS) \<and> str L \<noteq> []"
  then show "tok_loop L (c # tail) = (L, c # tail, False)"
    by (simp add: tok_loop_pushed_back_sign del: tok_loop.simps)
next
  assume h: "(c = MINUS \<or> c = PLUS) \<and> \<not> wcin_eof s \<and> list_all isspace ws
        \<and> wcin s = ws @ c # tail \<and> delimits tail"
  then have "tok_loop tok_init (wcin s) = tok_loop (tok_init\<lparr>str := [c]\<rparr>) tail"
    by (simp add: tok_loop_skip_space tok_loop_sign tok_init_def del: tok_loop.simps)
  moreover from h obtain L' rest eof where
    r: "tok_loop (tok_init\<lparr>str := [c]\<rparr>) tail = (L', rest, eof)" and t: "str L' = [c]"
    using tok_loop_delimited[of tail "tok_init\<lparr>str := [c]\<rparr>"] by auto
  ultimately have n: "next_tok s = classify (L', rest, eof) s"
    using h by (simp add: next_tok_def)
  from h t have "is_operator_text (str L')" by (auto simp: is_operator_text_def)
  then show "\<exists>s'. next_tok s = Inr ([c], s') \<and> IsOperator s'"
    using classify_returns[of L' rest eof s] n t by auto
next
  show "next_tok (start ''-;'') = Inr (''-'', (start [])\<lparr>EndOfInput := True, IsOperator := True\<rparr>)"
    by (simp add: next_tok_def start_def tok_init_def classify_def is_operator_text_def
          marker_defs)
qed

theorem sign_only_as_first_character_witness:
  "tok_loop tok_init ''-5;'' = tok_loop (tok_init\<lparr>str := ''-''\<rparr>) ''5;''
   \<and> tok_loop (tok_init\<lparr>str := ''7''\<rparr>) ''-5;'' = (tok_init\<lparr>str := ''7''\<rparr>, ''-5;'', False)
   \<and> (\<exists>s'. next_tok (start '' - 2;'' :: rat pda) = Inr (''-'', s') \<and> IsOperator s')"
proof -
  note t = sign_only_as_first_character
             [where c = "CHR ''-''" and s = "start '' - 2;'' :: rat pda" and ws = "'' ''"]
  have "tok_loop tok_init ''-5;'' = tok_loop (tok_init\<lparr>str := ''-''\<rparr>) ''5;''"
    using t[where L = tok_init and tail = "''5;''"]
    by (auto simp: tok_init_def marker_defs simp del: tok_loop.simps)
  moreover have "tok_loop (tok_init\<lparr>str := ''7''\<rparr>) ''-5;''
       = (tok_init\<lparr>str := ''7''\<rparr>, ''-5;'', False)"
    using t[where L = "tok_init\<lparr>str := ''7''\<rparr>" and tail = "''5;''"]
    by (auto simp: tok_init_def marker_defs simp del: tok_loop.simps)
  moreover have "\<exists>s'. next_tok (start '' - 2;'' :: rat pda) = Inr (''-'', s') \<and> IsOperator s'"
    using t[where L = tok_init and tail = "'' 2;''"]
    by (auto simp: start_def delimits_def isspace_def marker_defs simp del: tok_loop.simps)
  ultimately show ?thesis by blast
qed

text \<open>
  C7. A radix point read when none has been seen and nothing is accumulated makes the
  text \<open>0.\<close>; a lexeme written as a point and digits is returned with the zero in
  front, as a number; \<open>.5\<close> gives the text \<open>0.5\<close>, which the exact extraction reads as
  one half. A radix point read when one has been seen is put back and ends the lexeme:
  of \<open>1.2.3;\<close> the first token is \<open>1.2\<close> and \<open>.3;\<close> stays in the stream.
\<close>

theorem radix_point_gets_leading_zero:
  "(\<not> got_radixpt L \<and> str L = [] \<longrightarrow>
      tok_loop L (RADIX_POINT # tail) =
        tok_loop (L\<lparr>str := [ZERO, RADIX_POINT], got_radixpt := True, is_valid_num := False\<rparr>) tail)
   \<and> (got_radixpt L \<longrightarrow> tok_loop L (RADIX_POINT # tail) = (L, RADIX_POINT # tail, False))
   \<and> (\<not> wcin_eof s \<and> list_all isspace ws \<and> list_all isdigit ds \<and> ds \<noteq> []
        \<and> wcin s = ws @ RADIX_POINT # ds @ tail \<and> delimits tail \<longrightarrow>
      (\<exists>s'. next_tok s = Inr (ZERO # RADIX_POINT # ds, s') \<and> \<not> IsOperator s'))
   \<and> next_tok (start ''.5'') = Inr (''0.5'', (start [])\<lparr>wcin_eof := True, EndOfInput := True\<rparr>)
   \<and> d_extract exact_ops ''0.5'' = Some (1 / 2)
   \<and> next_tok (start ''1.2.3;'') = Inr (''1.2'', start ''.3;'')"
proof (intro conjI impI)
  assume "\<not> got_radixpt L \<and> str L = []"
  then show "tok_loop L (RADIX_POINT # tail) =
        tok_loop (L\<lparr>str := [ZERO, RADIX_POINT], got_radixpt := True, is_valid_num := False\<rparr>) tail"
    by (simp add: tok_loop_point del: tok_loop.simps)
next
  assume "got_radixpt L"
  then show "tok_loop L (RADIX_POINT # tail) = (L, RADIX_POINT # tail, False)"
    by (rule tok_loop_second_point)
next
  let ?L = "tok_init\<lparr>str := ZERO # RADIX_POINT # ds, got_radixpt := True, is_valid_num := True\<rparr>"
  assume h: "\<not> wcin_eof s \<and> list_all isspace ws \<and> list_all isdigit ds \<and> ds \<noteq> []
        \<and> wcin s = ws @ RADIX_POINT # ds @ tail \<and> delimits tail"
  then have "tok_loop tok_init (wcin s) = tok_loop ?L tail"
    by (simp add: tok_loop_skip_space tok_loop_point tok_loop_digits tok_init_def
          del: tok_loop.simps)
  moreover from h obtain L' rest eof where
    r: "tok_loop ?L tail = (L', rest, eof)" and t: "str L' = ZERO # RADIX_POINT # ds"
      and v: "is_valid_num L'"
    using tok_loop_delimited[of tail ?L] by auto
  ultimately have n: "next_tok s = classify (L', rest, eof) s"
    using h by (simp add: next_tok_def)
  from t have "\<not> is_operator_text (str L')" by (simp add: is_operator_text_def)
  then show "\<exists>s'. next_tok s = Inr (ZERO # RADIX_POINT # ds, s') \<and> \<not> IsOperator s'"
    using classify_returns[of L' rest eof s] n t v by auto
next
  show "next_tok (start ''.5'') = Inr (''0.5'', (start [])\<lparr>wcin_eof := True, EndOfInput := True\<rparr>)"
    by (simp add: next_tok_def start_def tok_init_def classify_def is_operator_text_def
          isspace_def isdigit_def marker_defs)
next
  show "d_extract exact_ops ''0.5'' = Some (1 / 2)"
    by code_simp
next
  show "next_tok (start ''1.2.3;'') = Inr (''1.2'', start ''.3;'')"
    by (simp add: next_tok_def start_def tok_init_def classify_def is_operator_text_def
          isspace_def isdigit_def marker_defs)
qed

theorem radix_point_gets_leading_zero_witness:
  "tok_loop tok_init ''.25 '' =
     tok_loop (tok_init\<lparr>str := ''0.'', got_radixpt := True, is_valid_num := False\<rparr>) ''25 ''
   \<and> tok_loop (tok_init\<lparr>str := ''1.2'', got_radixpt := True\<rparr>) ''.3''
       = (tok_init\<lparr>str := ''1.2'', got_radixpt := True\<rparr>, ''.3'', False)
   \<and> (\<exists>s'. next_tok (start '' .25 4 *;'' :: rat pda) = Inr (''0.25'', s') \<and> \<not> IsOperator s')"
proof -
  note t = radix_point_gets_leading_zero
             [where s = "start '' .25 4 *;'' :: rat pda" and ws = "'' ''" and ds = "''25''"]
  have "tok_loop tok_init ''.25 '' =
     tok_loop (tok_init\<lparr>str := ''0.'', got_radixpt := True, is_valid_num := False\<rparr>) ''25 ''"
    using t[where L = tok_init and tail = "''25 ''"]
    by (auto simp: tok_init_def marker_defs simp del: tok_loop.simps)
  moreover have "tok_loop (tok_init\<lparr>str := ''1.2'', got_radixpt := True\<rparr>) ''.3''
       = (tok_init\<lparr>str := ''1.2'', got_radixpt := True\<rparr>, ''.3'', False)"
    using t[where L = "tok_init\<lparr>str := ''1.2'', got_radixpt := True\<rparr>" and tail = "''3''"]
    by (auto simp: tok_init_def marker_defs simp del: tok_loop.simps)
  moreover have "\<exists>s'. next_tok (start '' .25 4 *;'' :: rat pda) = Inr (''0.25'', s')
       \<and> \<not> IsOperator s'"
    using t[where L = tok_init and tail = "'' 4 *;''"]
    by (auto simp: start_def delimits_def isspace_def isdigit_def marker_defs simp del: tok_loop.simps)
  ultimately show ?thesis by blast
qed

text \<open>
  C8. A character that is no digit, sign, radix point, operator, white space or
  terminator is appended to the text and put back, and the loop ends with the number
  marked invalid; unless \<open>EndOfInput\<close> is set, \<open>next_tok\<close> then throws
  \<open>InvalidExpression\<close> with the text, which ends with that character. The run on
  \<open>3 4 @ +;\<close> ends with \<open>InvalidExpression\<close> carrying the text \<open>@\<close>.
\<close>

theorem unrecognized_character_is_invalid:
  "(unrecognized c \<longrightarrow>
      tok_loop L (c # tail) = (L\<lparr>str := str L @ [c], is_valid_num := False\<rparr>, c # tail, False))
   \<and> (unrecognized c \<and> \<not> got_eoi L \<and> \<not> EndOfInput s \<longrightarrow>
      (\<exists>s'. classify (tok_loop L (c # tail)) s = Inl (InvalidExpression (str L @ [c]), s')
         \<and> wcin s' = c # tail))
   \<and> (unrecognized c \<and> \<not> wcin_eof s \<and> \<not> EndOfInput s \<and> list_all isspace ws
        \<and> wcin s = ws @ c # tail \<longrightarrow>
      (\<exists>s'. next_tok s = Inl (InvalidExpression [c], s')))
   \<and> unrecognized (CHR ''@'')
   \<and> map_sum fst fst (evaluate exact_ops False ''3 4 @ +;'') = Inl (InvalidExpression ''@'')
   \<and> map_sum fst fst (evaluate exact_ops True ''3 4 @ +;'') = Inl (InvalidExpression ''@'')"
proof (intro conjI impI)
  assume "unrecognized c"
  then show "tok_loop L (c # tail) = (L\<lparr>str := str L @ [c], is_valid_num := False\<rparr>, c # tail, False)"
    by (rule tok_loop_unrecognized)
next
  assume h: "unrecognized c \<and> \<not> got_eoi L \<and> \<not> EndOfInput s"
  then have "\<not> is_operator_text (str L @ [c])"
    by (auto simp: is_operator_text_def unrecognized_def)
  with h show "\<exists>s'. classify (tok_loop L (c # tail)) s = Inl (InvalidExpression (str L @ [c]), s')
         \<and> wcin s' = c # tail"
    by (simp add: tok_loop_unrecognized classify_def Let_def del: tok_loop.simps)
next
  assume h: "unrecognized c \<and> \<not> wcin_eof s \<and> \<not> EndOfInput s \<and> list_all isspace ws
        \<and> wcin s = ws @ c # tail"
  then have "\<not> is_operator_text [c]"
    by (auto simp: is_operator_text_def unrecognized_def)
  with h show "\<exists>s'. next_tok s = Inl (InvalidExpression [c], s')"
    by (simp add: next_tok_def tok_loop_skip_space tok_loop_unrecognized classify_def Let_def
          tok_init_def del: tok_loop.simps)
next
  show "unrecognized (CHR ''@'')"
    by (simp add: unrecognized_def isspace_def isdigit_def marker_defs)
next
  show "map_sum fst fst (evaluate exact_ops False ''3 4 @ +;'') = Inl (InvalidExpression ''@'')"
    by code_simp
next
  show "map_sum fst fst (evaluate exact_ops True ''3 4 @ +;'') = Inl (InvalidExpression ''@'')"
    by code_simp
qed

theorem unrecognized_character_is_invalid_witness:
  "tok_loop (tok_init\<lparr>str := ''12''\<rparr>) ''x 3'' = (tok_init\<lparr>str := ''12x''\<rparr>, ''x 3'', False)
   \<and> (\<exists>s'. classify (tok_loop (tok_init\<lparr>str := ''12''\<rparr>) ''x 3'') (start [] :: rat pda)
              = Inl (InvalidExpression ''12x'', s') \<and> wcin s' = ''x 3'')
   \<and> (\<exists>s'. next_tok (start ''  x 3'' :: rat pda) = Inl (InvalidExpression ''x'', s'))"
proof -
  have x: "unrecognized (CHR ''x'')"
    by (simp add: unrecognized_def isspace_def isdigit_def marker_defs)
  note t = unrecognized_character_is_invalid
             [where c = "CHR ''x''" and L = "tok_init\<lparr>str := ''12''\<rparr>" and tail = "'' 3''"
                and ws = "''  ''"]
  have "tok_loop (tok_init\<lparr>str := ''12''\<rparr>) ''x 3''
       = (tok_init\<lparr>str := ''12x''\<rparr>, ''x 3'', False)"
    using x t[where s = "start [] :: rat pda"]
    by (auto simp: tok_init_def simp del: tok_loop.simps)
  moreover have "\<exists>s'. classify (tok_loop (tok_init\<lparr>str := ''12''\<rparr>) ''x 3'') (start [] :: rat pda)
              = Inl (InvalidExpression ''12x'', s') \<and> wcin s' = ''x 3''"
    using x t[where s = "start [] :: rat pda"]
    by (auto simp: tok_init_def start_def simp del: tok_loop.simps)
  moreover have "\<exists>s'. next_tok (start ''  x 3'' :: rat pda) = Inl (InvalidExpression ''x'', s')"
    using x t[where s = "start ''  x 3'' :: rat pda"]
    by (auto simp: start_def isspace_def simp del: tok_loop.simps)
  ultimately show ?thesis by blast
qed


subsection \<open>Tracing\<close>

lemma quiet_fields:
  "EndOfInput (quiet s) = EndOfInput s" "mem (quiet s) = mem s" "wcin (quiet s) = wcin s"
  by (simp_all add: quiet_def)

lemma next_tok_quiet:
  "next_tok (quiet s) = map_sum (apsnd quiet) (apsnd quiet) (next_tok s)"
  by (simp add: next_tok_def classify_def quiet_def Let_def split: prod.splits)

lemma process_tok_quiet:
  "process_tok A False tok (quiet s) = map_sum (apsnd quiet) quiet (process_tok A v tok s)"
  by (simp add: process_tok_def push_number_def apply_operator_def put_def quiet_def Let_def
        split: option.splits)

lemma main_loop_quiet:
  "main_loop A False (quiet s) = map_sum (apsnd quiet) quiet (main_loop A v s)"
proof (induction A v s rule: main_loop.induct)
  case (1 A v s)
  show ?case
  proof (cases "EndOfInput s")
    case True
    then show ?thesis
      by (simp add: main_loop.simps[of A v s] main_loop.simps[of A False "quiet s"]
            quiet_fields)
  next
    case False
    then have q: "\<not> EndOfInput (quiet s)" by (simp add: quiet_fields)
    show ?thesis
    proof (cases "next_tok s")
      case (Inl e)
      then have "next_tok (quiet s) = Inl (apsnd quiet e)" by (simp add: next_tok_quiet)
      with False q Inl show ?thesis
        by (simp add: main_loop.simps[of A v s] main_loop.simps[of A False "quiet s"])
    next
      case (Inr p)
      then obtain tok s1 where nt: "next_tok s = Inr (tok, s1)" by (cases p) simp
      then have ntq: "next_tok (quiet s) = Inr (tok, quiet s1)" by (simp add: next_tok_quiet)
      show ?thesis
      proof (cases "process_tok A v tok s1")
        case (Inl e)
        then have "process_tok A False tok (quiet s1) = Inl (apsnd quiet e)"
          by (simp add: process_tok_quiet[of A tok s1 v])
        with False q nt ntq Inl show ?thesis
          by (simp add: main_loop.simps[of A v s] main_loop.simps[of A False "quiet s"])
      next
        case (Inr s2)
        then have pq: "process_tok A False tok (quiet s1) = Inr (quiet s2)"
          by (simp add: process_tok_quiet[of A tok s1 v])
        have ih: "main_loop A False (quiet s2) = map_sum (apsnd quiet) quiet (main_loop A v s2)"
          by (rule "1.IH"[OF False nt refl Inr])
        have "main_loop A v s = main_loop A v s2"
          using False nt Inr by (simp add: main_loop.simps[of A v s])
        moreover have "main_loop A False (quiet s) = main_loop A False (quiet s2)"
          using q ntq pq by (simp add: main_loop.simps[of A False "quiet s"])
        ultimately show ?thesis using ih by simp
      qed
    qed
  qed
qed

lemma print_result_quiet:
  "map_sum (apsnd quiet) (apsnd quiet) (print_result False (quiet s))
     = map_sum (apsnd quiet) (apsnd quiet) (print_result v s)"
  by (simp add: print_result_def put_def quiet_def Let_def)

lemma evaluate_quiet:
  "map_sum (apsnd quiet) (apsnd quiet) (evaluate A v input)
     = (case main_loop A False (quiet (start input)) of
          Inl e \<Rightarrow> Inl e
        | Inr s \<Rightarrow> map_sum (apsnd quiet) (apsnd quiet) (print_result False s))"
proof (cases "main_loop A v (start input)")
  case (Inl e)
  then show ?thesis
    by (simp add: evaluate_def main_loop_quiet[of A "start input" v])
next
  case (Inr s)
  then show ?thesis
    using print_result_quiet[of s v]
    by (simp add: evaluate_def main_loop_quiet[of A "start input" v])
qed

text \<open>
  C9. On the same characters, the run with tracing and the run without end alike: with
  the same exception carrying the same payload, thrown in the same state, or with the
  same number as the result and the same final state; the states are compared without
  what was printed. In particular the exception or the result is the same.
\<close>

theorem verbose_does_not_change_outcome:
  "map_sum (apsnd quiet) (apsnd quiet) (evaluate A True input)
     = map_sum (apsnd quiet) (apsnd quiet) (evaluate A False input)
   \<and> map_sum fst fst (evaluate A True input) = map_sum fst fst (evaluate A False input)"
proof -
  have q: "map_sum (apsnd quiet) (apsnd quiet) (evaluate A True input)
     = map_sum (apsnd quiet) (apsnd quiet) (evaluate A False input)"
    by (simp only: evaluate_quiet)
  then have "map_sum fst fst (map_sum (apsnd quiet) (apsnd quiet) (evaluate A True input))
     = map_sum fst fst (map_sum (apsnd quiet) (apsnd quiet) (evaluate A False input))"
    by simp
  then have "map_sum fst fst (evaluate A True input) = map_sum fst fst (evaluate A False input)"
    by (simp add: sum.map_comp comp_def)
  with q show ?thesis by simp
qed

theorem verbose_does_not_change_outcome_witness:
  "map_sum fst fst (evaluate exact_ops True ''3 4 +;'') = Inr 7
   \<and> map_sum fst fst (evaluate exact_ops True ''2 0 /;'') = Inl (DivByZero 2)"
proof -
  have "map_sum fst fst (evaluate exact_ops False ''3 4 +;'') = Inr 7" by code_simp
  moreover have "map_sum fst fst (evaluate exact_ops False ''2 0 /;'') = Inl (DivByZero 2)"
    by code_simp
  ultimately show ?thesis
    using verbose_does_not_change_outcome[of exact_ops "''3 4 +;''"]
          verbose_does_not_change_outcome[of exact_ops "''2 0 /;''"]
    by simp
qed

subsection \<open>The final result\<close>


lemma print_result_balanced:
  "mem s = [r] \<Longrightarrow>
   \<exists>s'. print_result v s = Inr (r, s') \<and> mem s' = [] \<and> wcerr s' = wcerr s"
  by (simp add: print_result_def put_def Let_def)




text \<open>
  C5 on the program. When the loop ends with the stack empty, the program does not
  throw \<open>InvalidInput\<close>: it calls \<open>mem.back()\<close> on the empty list. This is what happens
  on the input \<open>;\<close>, on the empty input, and on white space before the terminator.
\<close>

theorem final_pop_on_empty_stack_is_unchecked:
  "map_sum fst fst (evaluate A v '';'') = Inl Back_of_empty_list
   \<and> map_sum fst fst (evaluate A v []) = Inl Back_of_empty_list
   \<and> map_sum fst fst (evaluate A v '' ;'') = Inl Back_of_empty_list
   \<and> map_sum fst fst (evaluate A v '';'') \<noteq> Inl (InvalidInput [])"
  by (simp add: evaluate_def main_loop.simps start_def next_tok_def classify_def tok_init_def
        process_tok_def print_result_def put_def is_operator_text_def isspace_def marker_defs)


subsection \<open>The run on a well-formed postfix expression\<close>

lemma number_text_parts:
  assumes "number_text t"
  obtains sg w f where "t = sg @ w @ f" "sg = [] \<or> sg = [MINUS] \<or> sg = [PLUS]"
    "w \<noteq> []" "list_all isdigit w"
    "f = [] \<or> (\<exists>fs. f = RADIX_POINT # fs \<and> fs \<noteq> [] \<and> list_all isdigit fs)"
proof -
  define sg where "sg = (if t \<noteq> [] \<and> (hd t = MINUS \<or> hd t = PLUS) then [hd t] else [])"
  define u where "u = (if t \<noteq> [] \<and> (hd t = MINUS \<or> hd t = PLUS) then tl t else t)"
  define w where "w = takeWhile isdigit u"
  define f where "f = dropWhile isdigit u"
  have 1: "t = sg @ u" by (simp add: sg_def u_def)
  have 2: "u = w @ f" by (simp add: w_def f_def)
  have 3: "sg = [] \<or> sg = [MINUS] \<or> sg = [PLUS]" by (auto simp: sg_def)
  have 4: "list_all isdigit w"
    by (auto simp: w_def list_all_iff dest: set_takeWhileD)
  from assms have 5: "w \<noteq> []"
    and 6: "f = [] \<or> (hd f = RADIX_POINT \<and> tl f \<noteq> [] \<and> list_all isdigit (tl f))"
    by (simp_all add: number_text_def Let_def w_def f_def u_def)
  from 6 have "f = [] \<or> (\<exists>fs. f = RADIX_POINT # fs \<and> fs \<noteq> [] \<and> list_all isdigit fs)"
    by (cases f) auto
  with 1 2 3 4 5 show thesis by (auto intro: that)
qed

lemma number_text_not_operator:
  assumes "number_text t"
  shows "\<not> is_operator_text t" and "t \<noteq> []"
proof -
  from assms obtain sg w f where t: "t = sg @ w @ f" and w: "w \<noteq> []" "list_all isdigit w"
    by (rule number_text_parts)
  from w obtain c cs where c: "w = c # cs" "isdigit c" by (cases w) auto
  show "t \<noteq> []" using t w by simp
  show "\<not> is_operator_text t"
  proof
    assume "is_operator_text t"
    then obtain x where x: "t = [x]" "x = MINUS \<or> x = PLUS \<or> x = MULT \<or> x = DIV"
      by (auto simp: is_operator_text_def)
    with t c have "x = c" by (cases sg) auto
    with x c isdigit_plain[of c] show False by auto
  qed
qed

text \<open>The loop of \<open>next_tok\<close> reads the whole of a number text.\<close>

lemma tok_loop_number:
  assumes "number_text t"
  shows "\<exists>L'. tok_loop tok_init (t @ tail) = tok_loop L' tail \<and> str L' = t
           \<and> is_valid_num L' \<and> \<not> got_eoi L'"
proof -
  from assms obtain sg w f where t: "t = sg @ w @ f"
    and sg: "sg = [] \<or> sg = [MINUS] \<or> sg = [PLUS]"
    and w: "w \<noteq> []" "list_all isdigit w"
    and f: "f = [] \<or> (\<exists>fs. f = RADIX_POINT # fs \<and> fs \<noteq> [] \<and> list_all isdigit fs)"
    by (rule number_text_parts)
  let ?L1 = "tok_init\<lparr>str := sg\<rparr>"
  let ?L2 = "?L1\<lparr>str := sg @ w, is_valid_num := True\<rparr>"
  have 1: "tok_loop tok_init (sg @ w @ f @ tail) = tok_loop ?L1 (w @ f @ tail)"
    using sg by (auto simp: tok_init_def tok_loop_sign simp del: tok_loop.simps)
  have 2: "tok_loop ?L1 (w @ f @ tail) = tok_loop ?L2 (f @ tail)"
    using w tok_loop_digits[of w ?L1 "f @ tail"] by simp
  show ?thesis
  proof (cases "f = []")
    case True
    with 1 2 t show ?thesis
      by (intro exI[of _ ?L2]) (simp add: tok_init_def)
  next
    case False
    with f obtain fs where fs: "f = RADIX_POINT # fs" "fs \<noteq> []" "list_all isdigit fs"
      by auto
    let ?L3 = "?L2\<lparr>str := (sg @ w) @ [RADIX_POINT], got_radixpt := True, is_valid_num := False\<rparr>"
    let ?L4 = "?L3\<lparr>str := (sg @ w) @ [RADIX_POINT] @ fs, is_valid_num := True\<rparr>"
    have 3: "tok_loop ?L2 (f @ tail) = tok_loop ?L3 (fs @ tail)"
      using w fs tok_loop_point[of ?L2 "fs @ tail"] by (simp add: tok_init_def)
    have 4: "tok_loop ?L3 (fs @ tail) = tok_loop ?L4 tail"
      using fs tok_loop_digits[of fs ?L3 tail] by simp
    from 1 2 3 4 t fs show ?thesis
      by (intro exI[of _ ?L4]) (simp add: tok_init_def)
  qed
qed

text \<open>What \<open>next_tok\<close> returns for a number and for an operator that a space or the terminator follows.\<close>

lemma next_tok_number:
  assumes "number_text t" "\<not> wcin_eof s" "list_all isspace ws" "d = EOI \<or> isspace d"
    and "wcin s = ws @ t @ d # rest"
  shows "\<exists>s'. next_tok s = Inr (t, s') \<and> \<not> IsOperator s' \<and> \<not> wcin_eof s'
           \<and> mem s' = mem s \<and> wcerr s' = wcerr s
           \<and> ((wcin s' = d # rest \<and> EndOfInput s' = EndOfInput s)
               \<or> (d = EOI \<and> wcin s' = rest \<and> EndOfInput s'))"
proof -
  from assms(1) obtain L' where L: "tok_loop tok_init (t @ d # rest) = tok_loop L' (d # rest)"
    "str L' = t" "is_valid_num L'" "\<not> got_eoi L'"
    using tok_loop_number[of t "d # rest"] by auto
  have n: "\<not> is_operator_text t" "t \<noteq> []" using assms(1) by (rule number_text_not_operator)+
  have "tok_loop tok_init (wcin s) = tok_loop L' (d # rest)"
    using assms L by (simp add: tok_loop_skip_space tok_init_def del: tok_loop.simps)
  then have nt: "next_tok s = classify (tok_loop L' (d # rest)) s"
    using assms by (simp add: next_tok_def)
  show ?thesis
  proof (cases "d = EOI")
    case True
    with nt L n show ?thesis
      by (simp add: classify_def Let_def)
  next
    case False
    with assms have "isspace d" by simp
    then have "tok_loop L' (d # rest) = (L', d # rest, False)"
      using L n by (simp add: tok_loop_space_ends del: tok_loop.simps)
    with nt L n show ?thesis
      by (simp add: classify_def Let_def)
  qed
qed

lemma next_tok_operator:
  assumes "is_operator_text opr" "\<not> wcin_eof s" "list_all isspace ws" "d = EOI \<or> isspace d"
    and "wcin s = ws @ opr @ d # rest"
  shows "\<exists>s'. next_tok s = Inr (opr, s') \<and> IsOperator s' \<and> \<not> wcin_eof s'
           \<and> mem s' = mem s \<and> wcerr s' = wcerr s
           \<and> ((wcin s' = d # rest \<and> EndOfInput s' = EndOfInput s)
               \<or> (d = EOI \<and> wcin s' = rest \<and> EndOfInput s'))"
proof -
  from assms(1) obtain c where c: "opr = [c]" "c = MINUS \<or> c = PLUS \<or> c = MULT \<or> c = DIV"
    by (auto simp: is_operator_text_def)
  have skip: "tok_loop tok_init (wcin s) = tok_loop tok_init (c # d # rest)"
    using assms c by (simp add: tok_loop_skip_space tok_init_def del: tok_loop.simps)
  show ?thesis
  proof (cases "c = MINUS \<or> c = PLUS")
    case True
    then have 1: "tok_loop tok_init (c # d # rest) = tok_loop (tok_init\<lparr>str := [c]\<rparr>) (d # rest)"
      by (simp add: tok_loop_sign tok_init_def del: tok_loop.simps)
    show ?thesis
    proof (cases "d = EOI")
      case True
      with 1 skip assms c show ?thesis
        by (simp add: next_tok_def classify_def Let_def tok_init_def)
    next
      case False
      with assms have "isspace d" by simp
      then have "tok_loop (tok_init\<lparr>str := [c]\<rparr>) (d # rest) = (tok_init\<lparr>str := [c]\<rparr>, d # rest, False)"
        by (simp add: tok_loop_space_ends del: tok_loop.simps)
      with 1 skip assms c show ?thesis
        by (simp add: next_tok_def classify_def Let_def tok_init_def)
    qed
  next
    case False
    with c have "c = MULT \<or> c = DIV" by simp
    then have "tok_loop tok_init (c # d # rest) = (tok_init\<lparr>str := [c]\<rparr>, d # rest, False)"
      by (auto simp: tok_init_def marker_defs)
    with skip assms c show ?thesis
      by (simp add: next_tok_def classify_def Let_def tok_init_def)
  qed
qed

lemma push_number_ok:
  "d_extract A t = Some n \<Longrightarrow>
   \<exists>s'. push_number A v t s = Inr s' \<and> mem s' = mem s @ [n] \<and> wcin s' = wcin s
     \<and> wcin_eof s' = wcin_eof s \<and> EndOfInput s' = EndOfInput s \<and> wcerr s' = wcerr s"
  by (simp add: push_number_def put_def Let_def)

lemma main_loop_step:
  "\<not> EndOfInput s \<Longrightarrow> next_tok s = Inr (tok, s1) \<Longrightarrow> process_tok A v tok s1 = Inr s2 \<Longrightarrow>
   main_loop A v s = main_loop A v s2"
  by (simp add: main_loop.simps[of A v s])

lemma operate_by_identity:
  "is_operator_text opr \<Longrightarrow>
   operate A opr n1 n2 =
     (if opr = [PLUS] then d_add A n1 n2
      else if opr = [MINUS] then d_sub A n1 n2
      else if opr = [MULT] then d_mul A n1 n2
      else d_div A n1 n2)"
  by (auto simp: operate_def is_operator_text_def marker_defs)

lemma space_is_space: "isspace (CHR '' '')" "CHR '' '' \<noteq> EOI"
  by (simp_all add: isspace_def EOI_def)

text \<open>
  The loop on the text of a well-formed expression whose value exists: it comes to a
  state from which it goes on as from the start, with the value pushed; the character
  after the text is still to be read, or it was the terminator and has been read.
\<close>

lemma main_loop_expr:
  "well_formed e \<Longrightarrow> expr_value A e = Some n \<Longrightarrow> \<not> EndOfInput s \<Longrightarrow> \<not> wcin_eof s \<Longrightarrow>
   list_all isspace ws \<Longrightarrow> d = EOI \<or> isspace d \<Longrightarrow> wcin s = ws @ postfix_text e @ d # rest \<Longrightarrow>
   \<exists>s'. main_loop A v s = main_loop A v s' \<and> mem s' = mem s @ [n] \<and> wcerr s' = wcerr s
      \<and> \<not> wcin_eof s'
      \<and> ((wcin s' = d # rest \<and> \<not> EndOfInput s') \<or> (d = EOI \<and> wcin s' = rest \<and> EndOfInput s'))"
proof (induction e arbitrary: n s ws d rest)
  case (Operand t)
  then have nt: "number_text t" and ex: "d_extract A t = Some n" by simp_all
  from nt Operand.prems obtain s1 where s1: "next_tok s = Inr (t, s1)" "\<not> IsOperator s1"
    "\<not> wcin_eof s1" "mem s1 = mem s" "wcerr s1 = wcerr s"
    "(wcin s1 = d # rest \<and> EndOfInput s1 = EndOfInput s) \<or> (d = EOI \<and> wcin s1 = rest \<and> EndOfInput s1)"
    using next_tok_number[of t s ws d rest] by auto
  from ex obtain s2 where s2: "push_number A v t s1 = Inr s2" "mem s2 = mem s1 @ [n]"
    "wcin s2 = wcin s1" "wcin_eof s2 = wcin_eof s1" "EndOfInput s2 = EndOfInput s1"
    "wcerr s2 = wcerr s1"
    using push_number_ok[of A t n v s1] by auto
  have "t \<noteq> []" using nt by (rule number_text_not_operator)
  with s1 s2 have "process_tok A v t s1 = Inr s2" by (simp add: process_tok_def)
  with Operand.prems s1 have "main_loop A v s = main_loop A v s2"
    by (intro main_loop_step[of s t s1 A v s2]) simp_all
  with s1 s2 Operand.prems show ?case by (intro exI[of _ s2]) auto
next
  case (Binary l opr r)
  from Binary.prems have wf: "is_operator_text opr" "well_formed l" "well_formed r" by simp_all
  from Binary.prems obtain n1 n2 where v: "expr_value A l = Some n1" "expr_value A r = Some n2"
    "\<not> (opr = [DIV] \<and> d_eq A n2 (d_zero A))"
    "n = (if opr = [PLUS] then d_add A n1 n2 else if opr = [MINUS] then d_sub A n1 n2
          else if opr = [MULT] then d_mul A n1 n2 else d_div A n1 n2)"
    by (auto split: option.splits if_splits)
  have "wcin s = ws @ postfix_text l @ CHR '' '' # (postfix_text r @ '' '' @ opr @ d # rest)"
    using Binary.prems by simp
  with wf v Binary.prems space_is_space obtain s1 where
    s1: "main_loop A v s = main_loop A v s1" "mem s1 = mem s @ [n1]" "wcerr s1 = wcerr s"
      "\<not> wcin_eof s1" "wcin s1 = CHR '' '' # (postfix_text r @ '' '' @ opr @ d # rest)"
      "\<not> EndOfInput s1"
    using Binary.IH(1)[of n1 s ws "CHR '' ''" "postfix_text r @ '' '' @ opr @ d # rest"]
    by auto
  have "wcin s1 = '' '' @ postfix_text r @ CHR '' '' # (opr @ d # rest)"
    using s1 by simp
  with wf v s1 space_is_space obtain s2 where
    s2: "main_loop A v s1 = main_loop A v s2" "mem s2 = mem s1 @ [n2]" "wcerr s2 = wcerr s1"
      "\<not> wcin_eof s2" "wcin s2 = CHR '' '' # (opr @ d # rest)" "\<not> EndOfInput s2"
    using Binary.IH(2)[of n2 s1 "'' ''" "CHR '' ''" "opr @ d # rest"]
    by auto
  have "wcin s2 = '' '' @ opr @ d # rest" using s2 by simp
  with wf s2 Binary.prems space_is_space obtain s3 where
    s3: "next_tok s2 = Inr (opr, s3)" "IsOperator s3" "\<not> wcin_eof s3" "mem s3 = mem s2"
      "wcerr s3 = wcerr s2"
      "(wcin s3 = d # rest \<and> EndOfInput s3 = EndOfInput s2) \<or> (d = EOI \<and> wcin s3 = rest \<and> EndOfInput s3)"
    using next_tok_operator[of opr s2 "'' ''" d rest] by auto
  have m3: "mem s3 = mem s @ [n1, n2]" using s1 s2 s3 by simp
  with v obtain s4 where
    s4: "apply_operator A v opr s3 = Inr s4" "mem s4 = mem s @ [operate A opr n1 n2]"
      "wcin s4 = wcin s3" "wcin_eof s4 = wcin_eof s3" "EndOfInput s4 = EndOfInput s3"
      "wcerr s4 = wcerr s3"
    using apply_operator_push[of s3 "mem s" n1 n2 opr A v] by auto
  have "opr \<noteq> []" using wf by (auto simp: is_operator_text_def)
  with s3 s4 have "process_tok A v opr s3 = Inr s4" by (simp add: process_tok_operator)
  with s2 s3 have "main_loop A v s2 = main_loop A v s4"
    by (intro main_loop_step[of s2 opr s3 A v s4]) simp_all
  with s1 s2 have 1: "main_loop A v s = main_loop A v s4" by simp
  have 2: "mem s4 = mem s @ [n]" using s4 v wf by (simp add: operate_by_identity)
  from 1 2 s1 s2 s3 s4 show ?case by (intro exI[of _ s4]) auto
qed

text \<open>After that the loop ends: at once, or by reading the terminator as an empty last token.\<close>

lemma main_loop_at_end:
  assumes "\<not> wcin_eof s" "(wcin s = [EOI] \<and> \<not> EndOfInput s) \<or> (wcin s = [] \<and> EndOfInput s)"
  shows "\<exists>s'. main_loop A v s = Inr s' \<and> mem s' = mem s \<and> wcerr s' = wcerr s"
proof (cases "EndOfInput s")
  case True
  then show ?thesis by (simp add: main_loop.simps[of A v s])
next
  case False
  with assms have w: "wcin s = [EOI]" by auto
  let ?s1 = "s\<lparr>wcin := [], wcin_eof := False, IsOperator := False, EndOfInput := True\<rparr>"
  have 1: "next_tok s = Inr ([], ?s1)"
    using assms w by (simp add: next_tok_def classify_def tok_init_def is_operator_text_def)
  have 2: "process_tok A v [] ?s1 = Inr ?s1" by (simp add: process_tok_def)
  have "main_loop A v s = main_loop A v ?s1"
    using False 1 2 by (rule main_loop_step)
  then show ?thesis by (simp add: main_loop.simps[of A v ?s1])
qed

text \<open>
  C1. For every well-formed expression whose value exists (no divisor compares equal
  to zero and every number text is converted), the run on its postfix text followed by
  the terminator prints that value as the result, throws nothing, leaves the stack
  empty after the final pop and writes no warning. The value is the one of the
  reference: an operator step on a stack ending with \<open>n1, n2\<close> replaces the two by
  \<open>n1 + n2\<close>, \<open>n1 - n2\<close>, \<open>n1 * n2\<close> or \<open>n1 / n2\<close> according to the operator, computed
  with the double operations. The text \<open>5 1 2 + 4 * + 3 -;\<close> is the postfix text of
  \<open>(5 + (1 + 2) * 4) - 3\<close>, whose value is 14, and the run on it gives 14 with the
  stack empty, with and without tracing.
\<close>

theorem well_formed_postfix_evaluates_to_value:
  "(well_formed e \<and> expr_value A e = Some n \<longrightarrow>
      (\<exists>s'. evaluate A v (postfix_text e @ [EOI]) = Inr (n, s') \<and> mem s' = [] \<and> wcerr s' = []))
   \<and> (is_operator_text opr \<and> \<not> (opr = [DIV] \<and> d_eq A n2 (d_zero A)) \<and> IsOperator s
        \<and> mem s = st @ [n1, n2] \<longrightarrow>
      (\<exists>s'. process_tok A v opr s = Inr s'
         \<and> mem s' = st @ [if opr = [PLUS] then d_add A n1 n2
                           else if opr = [MINUS] then d_sub A n1 n2
                           else if opr = [MULT] then d_mul A n1 n2
                           else d_div A n1 n2]))
   \<and> postfix_text (Binary (Binary (Operand ''5'') ''+''
                       (Binary (Binary (Operand ''1'') ''+'' (Operand ''2'')) ''*'' (Operand ''4'')))
                     ''-'' (Operand ''3'')) @ [EOI]
       = ''5 1 2 + 4 * + 3 -;''
   \<and> expr_value exact_ops (Binary (Binary (Operand ''5'') ''+''
                       (Binary (Binary (Operand ''1'') ''+'' (Operand ''2'')) ''*'' (Operand ''4'')))
                     ''-'' (Operand ''3''))
       = Some 14
   \<and> map_sum fst (\<lambda>(r, s'). (r, mem s')) (evaluate exact_ops False ''5 1 2 + 4 * + 3 -;'')
       = Inr (14, [])
   \<and> map_sum fst (\<lambda>(r, s'). (r, mem s')) (evaluate exact_ops True ''5 1 2 + 4 * + 3 -;'')
       = Inr (14, [])"
proof (intro conjI impI)
  assume h: "well_formed e \<and> expr_value A e = Some n"
  let ?s0 = "start (postfix_text e @ [EOI]) :: 'a pda"
  have "wcin ?s0 = [] @ postfix_text e @ EOI # []" "\<not> EndOfInput ?s0" "\<not> wcin_eof ?s0"
    "mem ?s0 = []" "wcerr ?s0 = []"
    by (simp_all add: start_def)
  with h obtain s1 where s1: "main_loop A v ?s0 = main_loop A v s1" "mem s1 = [n]"
    "wcerr s1 = []" "\<not> wcin_eof s1"
    "(wcin s1 = [EOI] \<and> \<not> EndOfInput s1) \<or> (wcin s1 = [] \<and> EndOfInput s1)"
    using main_loop_expr[of e A n ?s0 "[]" EOI "[]" v] by auto
  then obtain s2 where s2: "main_loop A v s1 = Inr s2" "mem s2 = [n]" "wcerr s2 = []"
    using main_loop_at_end[of s1 A v] by auto
  then obtain s3 where "print_result v s2 = Inr (n, s3)" "mem s3 = []" "wcerr s3 = []"
    using print_result_balanced[of s2 n v] by auto
  with s1 s2 show "\<exists>s'. evaluate A v (postfix_text e @ [EOI]) = Inr (n, s') \<and> mem s' = []
      \<and> wcerr s' = []"
    by (simp add: evaluate_def)
next
  assume h: "is_operator_text opr \<and> \<not> (opr = [DIV] \<and> d_eq A n2 (d_zero A)) \<and> IsOperator s
        \<and> mem s = st @ [n1, n2]"
  then have "opr \<noteq> []" by (auto simp: is_operator_text_def)
  with h have "process_tok A v opr s = apply_operator A v opr s"
    by (simp add: process_tok_operator)
  with h show "\<exists>s'. process_tok A v opr s = Inr s'
         \<and> mem s' = st @ [if opr = [PLUS] then d_add A n1 n2
                           else if opr = [MINUS] then d_sub A n1 n2
                           else if opr = [MULT] then d_mul A n1 n2
                           else d_div A n1 n2]"
    using apply_operator_push[of s st n1 n2 opr A v] operate_by_identity[of opr A n1 n2]
    by auto
next
  show "postfix_text (Binary (Binary (Operand ''5'') ''+''
                       (Binary (Binary (Operand ''1'') ''+'' (Operand ''2'')) ''*'' (Operand ''4'')))
                     ''-'' (Operand ''3'')) @ [EOI]
       = ''5 1 2 + 4 * + 3 -;''"
    by (simp add: EOI_def)
next
  show "expr_value exact_ops (Binary (Binary (Operand ''5'') ''+''
                       (Binary (Binary (Operand ''1'') ''+'' (Operand ''2'')) ''*'' (Operand ''4'')))
                     ''-'' (Operand ''3''))
       = Some 14"
    by code_simp
next
  show "map_sum fst (\<lambda>(r, s'). (r, mem s')) (evaluate exact_ops False ''5 1 2 + 4 * + 3 -;'')
       = Inr (14, [])"
    by code_simp
next
  show "map_sum fst (\<lambda>(r, s'). (r, mem s')) (evaluate exact_ops True ''5 1 2 + 4 * + 3 -;'')
       = Inr (14, [])"
    by code_simp
qed

theorem well_formed_postfix_evaluates_to_value_witness:
  "(\<exists>s'. evaluate exact_ops True ''-1.5 +2 / 6 *;'' = Inr (- 9 / 2, s') \<and> mem s' = []
        \<and> wcerr s' = [])
   \<and> (\<exists>s'. process_tok exact_ops False ''/'' ((start [])\<lparr>IsOperator := True, mem := [7, 3, 4]\<rparr>)
              = Inr s' \<and> mem s' = [7, 3 / 4 :: rat])"
proof -
  let ?e = "Binary (Binary (Operand ''-1.5'') ''/'' (Operand ''+2'')) ''*'' (Operand ''6'')"
  have "well_formed ?e" by code_simp
  moreover have "expr_value exact_ops ?e = Some (- 9 / 2)" by code_simp
  moreover have "postfix_text ?e @ [EOI] = ''-1.5 +2 / 6 *;''" by (simp add: EOI_def)
  ultimately have "\<exists>s'. evaluate exact_ops True ''-1.5 +2 / 6 *;'' = Inr (- 9 / 2, s')
      \<and> mem s' = [] \<and> wcerr s' = []"
    using well_formed_postfix_evaluates_to_value
            [where e = ?e and A = exact_ops and n = "- 9 / 2" and v = True]
    by simp
  moreover have "\<exists>s'. process_tok exact_ops False ''/''
        ((start [])\<lparr>IsOperator := True, mem := [7, 3, 4]\<rparr>) = Inr s' \<and> mem s' = [7, 3 / 4 :: rat]"
    using well_formed_postfix_evaluates_to_value
            [where opr = "''/''" and A = exact_ops and v = False and st = "[7]"
               and ?n1.0 = 3 and ?n2.0 = 4
               and s = "(start [])\<lparr>IsOperator := True, mem := [7, 3, 4]\<rparr>"]
    by (simp add: is_operator_text_def exact_ops_def marker_defs)
  ultimately show ?thesis by blast
qed


end
